theory Spec2Isabelle
  imports Complex_Main "HOL-Library.Product_Lexorder" "HOL-Library.List_Lexorder" "HOL-Library.Char_ord"
begin

section \<open>The desktop frontend: App and ChatPanel\<close>

text \<open>
  The sources are the React components \<open>App\<close> (with its drop handler \<open>handleDrop\<close>),
  \<open>ChatPanel\<close> (with \<open>send\<close>) and \<open>Sidebar\<close>. A component's \<open>useState\<close> cells are a
  record. An \<open>async\<close> handler is split at its \<open>await\<close>: the part before it runs at once,
  the part after it runs when the promise of \<open>invoke\<close> settles. What a part does is the
  list of its effects in program order; a state setter acts on the state that is
  current when it is applied, and everything else (the backend call, \<open>console.error\<close>,
  \<open>alert\<close>) leaves the component state alone. A settled promise is a value of
  \<open>string + 'a\<close>: \<open>Inl e\<close> is a rejection with reason \<open>e\<close> (as \<open>String(e)\<close> prints it),
  \<open>Inr v\<close> a resolution with value \<open>v\<close>.
\<close>

subsection \<open>App.handleDrop\<close>

record app_state =
  selectedFolder :: "string option"
  indexed :: bool
  license :: "string option"

definition app_init :: app_state where
  "app_init = \<lparr>selectedFolder = None, indexed = False, license = None\<rparr>"

datatype app_effect =
    SetSelectedFolder string
  | SetIndexed bool
  | InvokeIndexFolder string
  | ConsoleError string
  | Alert string

fun apply_app_effect :: "app_effect \<Rightarrow> app_state \<Rightarrow> app_state" where
  "apply_app_effect (SetSelectedFolder p) st = st\<lparr>selectedFolder := Some p\<rparr>"
| "apply_app_effect (SetIndexed b) st = st\<lparr>indexed := b\<rparr>"
| "apply_app_effect (InvokeIndexFolder p) st = st"
| "apply_app_effect (ConsoleError e) st = st"
| "apply_app_effect (Alert m) st = st"

definition run_app_effects :: "app_effect list \<Rightarrow> app_state \<Rightarrow> app_state" where
  "run_app_effects effs st = fold apply_app_effect effs st"

text \<open>
  \<open>handleDrop(path)\<close> up to its \<open>await\<close>: \<open>setSelectedFolder(path)\<close>, \<open>setIndexed(false)\<close>,
  then \<open>invoke('index_folder', {folder: path})\<close>.
\<close>

definition handleDrop_start :: "string \<Rightarrow> app_effect list" where
  "handleDrop_start path = [SetSelectedFolder path, SetIndexed False, InvokeIndexFolder path]"

text \<open>
  \<open>handleDrop\<close> after its \<open>await\<close>: \<open>setIndexed(true)\<close> when the promise resolved; the
  \<open>catch\<close> block (\<open>console.error(e)\<close>, then the alert) when it rejected.
\<close>

definition handleDrop_settle :: "string + unit \<Rightarrow> app_effect list" where
  "handleDrop_settle r =
     (case r of
        Inr v \<Rightarrow> [SetIndexed True]
      | Inl e \<Rightarrow> [ConsoleError e, Alert (''Indexing failed: '' @ e)])"

text \<open>
  One call of \<open>handleDrop\<close> that runs from its first line to the settlement of its
  \<open>index_folder\<close> promise with nothing else of the component running in between: the
  state it leaves and the effects it performed.
\<close>

definition handleDrop :: "string \<Rightarrow> string + unit \<Rightarrow> app_state \<Rightarrow> app_state \<times> app_effect list" where
  "handleDrop path r st =
     (let effs = handleDrop_start path @ handleDrop_settle r
      in (run_app_effects effs st, effs))"

text \<open>
  \<open>Sidebar.onDrop\<close> reads \<open>files?.[0]?.path\<close> and calls \<open>onFolderDrop(path)\<close>, which is
  \<open>handleDrop\<close>, when the path is truthy: a dropped item with no path, or with the empty
  path, calls nothing. The result is the argument \<open>handleDrop\<close> is called with, if any.
\<close>

definition onDrop :: "string option \<Rightarrow> string option" where
  "onDrop path = (case path of None \<Rightarrow> None | Some p \<Rightarrow> (if p = [] then None else Some p))"

text \<open>
  Nothing in \<open>App\<close> or \<open>Sidebar\<close> keeps a second folder from being dropped while an
  \<open>index_folder\<close> call is still pending, so calls of \<open>handleDrop\<close> interleave at their
  \<open>await\<close>. The component together with its pending calls: \<open>pending\<close> holds the folders of
  the \<open>index_folder\<close> promises not yet settled, oldest first, and \<open>settled\<close> records for
  each settled promise its folder and whether it resolved.
\<close>

record app_sys =
  ui :: app_state
  pending :: "string list"
  settled :: "(string \<times> bool) list"

definition app_sys_init :: app_sys where
  "app_sys_init = \<lparr>ui = app_init, pending = [], settled = []\<rparr>"

datatype app_action =
    Drop "string option"
  | Settle nat "string + unit"

fun app_step :: "app_action \<Rightarrow> app_sys \<Rightarrow> app_sys" where
  "app_step (Drop item) s =
     (case onDrop item of
        None \<Rightarrow> s
      | Some p \<Rightarrow>
          s\<lparr>ui := run_app_effects (handleDrop_start p) (ui s),
            pending := pending s @ [p]\<rparr>)"
| "app_step (Settle i r) s =
     (if i < length (pending s)
      then s\<lparr>ui := run_app_effects (handleDrop_settle r) (ui s),
             pending := take i (pending s) @ drop (Suc i) (pending s),
             settled := settled s @ [(pending s ! i, \<not> isl r)]\<rparr>
      else s)"

definition run_app :: "app_action list \<Rightarrow> app_sys \<Rightarrow> app_sys" where
  "run_app acts s = fold app_step acts s"

subsection \<open>ChatPanel.send\<close>

datatype role = User | Assistant | System

record message =
  msg_id :: string
  role :: role
  content :: string
  timestamp :: "string option"

record chat_state =
  messages :: "message list"
  input :: string

datatype chat_effect =
    AppendMessage message
  | SetInput string
  | InvokeChatQuery string "message list"

text \<open>
  \<open>AppendMessage msg\<close> is \<open>setMessages((m) => [...m, msg])\<close>: the updater appends to the
  list that is current when it is applied. \<open>InvokeChatQuery q h\<close> is
  \<open>invoke('chat_query', {query: q, history: h})\<close>.
\<close>

fun apply_chat_effect :: "chat_effect \<Rightarrow> chat_state \<Rightarrow> chat_state" where
  "apply_chat_effect (AppendMessage msg) st = st\<lparr>messages := messages st @ [msg]\<rparr>"
| "apply_chat_effect (SetInput s) st = st\<lparr>input := s\<rparr>"
| "apply_chat_effect (InvokeChatQuery q h) st = st"

definition run_chat_effects :: "chat_effect list \<Rightarrow> chat_state \<Rightarrow> chat_state" where
  "run_chat_effects effs st = fold apply_chat_effect effs st"

text \<open>\<open>String(n)\<close> for a non-negative integer: its decimal digits.\<close>

definition digit :: "nat \<Rightarrow> char" where
  "digit d = ''0123456789'' ! d"

fun string_of_nat :: "nat \<Rightarrow> string" where
  "string_of_nat n =
     (if n < 10 then [digit n]
      else string_of_nat (n div 10) @ [digit (n mod 10)])"

declare string_of_nat.simps [simp del]

text \<open>
  The value the backend resolves with: \<open>null\<close>/\<open>undefined\<close>, or an object whose \<open>answer\<close>
  field is a string or is missing. \<open>(resp as any)?.answer || 'No answer.'\<close> falls back
  when the response is nullish, when the field is missing and when it is the empty
  string.
\<close>

datatype chat_resp = RespNullish | RespObject "string option"

definition answer_of :: "chat_resp \<Rightarrow> string" where
  "answer_of resp =
     (case resp of
        RespNullish \<Rightarrow> ''No answer.''
      | RespObject None \<Rightarrow> ''No answer.''
      | RespObject (Some a) \<Rightarrow> (if a = [] then ''No answer.'' else a))"

text \<open>
  \<open>send\<close> up to its \<open>await\<close>, in the render whose state is \<open>st\<close>: \<open>input\<close> and \<open>messages\<close>
  are the values of that render. \<open>now\<close> is \<open>new Date().toISOString()\<close> and \<open>date_now\<close> is
  \<open>Date.now()\<close>. An empty input is falsy and returns at once.
\<close>

definition send_start :: "string \<Rightarrow> nat \<Rightarrow> chat_state \<Rightarrow> chat_effect list" where
  "send_start now date_now st =
     (if input st = [] then []
      else
        let userMsg = \<lparr>msg_id = string_of_nat date_now, role = User,
                        content = input st, timestamp = Some now\<rparr>
        in [AppendMessage userMsg, SetInput [], InvokeChatQuery (content userMsg) (messages st)])"

text \<open>
  \<open>send\<close> after its \<open>await\<close>: a resolved promise appends the assistant's message; a
  rejected one throws out of \<open>send\<close>, which has no \<open>catch\<close>, and nothing more is done.
\<close>

definition send_settle :: "string + chat_resp \<Rightarrow> nat \<Rightarrow> string \<Rightarrow> chat_effect list" where
  "send_settle r date_now now =
     (case r of
        Inl e \<Rightarrow> []
      | Inr resp \<Rightarrow>
          [AppendMessage \<lparr>msg_id = string_of_nat (date_now + 1), role = Assistant,
                           content = answer_of resp, timestamp = Some now\<rparr>])"

text \<open>
  One call of \<open>send\<close> in the render of state \<open>st\<close>, run to the settlement of its
  \<open>chat_query\<close> promise: the state it leaves and the effects it performed.
\<close>

definition send :: "string \<Rightarrow> nat \<Rightarrow> string + chat_resp \<Rightarrow> nat \<Rightarrow> string \<Rightarrow> chat_state
    \<Rightarrow> chat_state \<times> chat_effect list" where
  "send now date_now r date_now' now' st =
     (if input st = [] then (st, [])
      else
        let effs = send_start now date_now st @ send_settle r date_now' now'
        in (run_chat_effects effs st, effs))"

section \<open>The indexing core, modelled from the specification\<close>

text \<open>
  The Rust backend and its Node helper, which chunk, embed and store the documents, are
  not among the sources: the frontend reaches them only through \<open>invoke\<close>. The two
  components below are written from the specification's text, sections 3, 4.1 and 4.3.
\<close>

subsection \<open>Text Chunker\<close>

text \<open>
  Modelled from the spec: the chunker's configuration \<open>{chunk_size: chars, overlap: chars}\<close>
  of section 4.1 (the chunker's code is missing).
\<close>

record chunker_config =
  chunk_size :: nat
  overlap :: nat

text \<open>
  Modelled from the spec: the Chunk record of section 3 as the chunker fills it (the
  chunker's code is missing). Ordinal within the document, character offsets
  \<open>[start, end)\<close> into the extracted text, and the raw text; the document id, the vector
  and the content hash are set later, by the pipeline.
\<close>

record chunk =
  ordinal :: nat
  start_offset :: nat
  end_offset :: nat
  raw_text :: string

text \<open>
  Modelled from the spec: one chunk of section 4.1 (the chunker's code is missing). The
  chunk that starts at offset \<open>s\<close> spans \<open>n\<close> characters, clipped to the end of the text
  and never padded.
\<close>

definition make_chunk :: "string \<Rightarrow> nat \<Rightarrow> nat \<Rightarrow> nat \<Rightarrow> chunk" where
  "make_chunk T n ord s =
     (let e = min (s + n) (length T)
      in \<lparr>ordinal = ord, start_offset = s, end_offset = e, raw_text = take (e - s) (drop s T)\<rparr>)"

text \<open>
  Modelled from the spec: the chunking loop of section 4.1 (the chunker's code is
  missing). Each start offset advances by \<open>chunk_size - overlap\<close> from the previous one;
  the chunk that reaches the end of the text is the final one; no text left means no
  chunk. The guard \<open>overlap < chunk_size\<close> is the contract's condition on the
  configuration, without which the loop would not advance.
\<close>

function chunks_from :: "chunker_config \<Rightarrow> string \<Rightarrow> nat \<Rightarrow> nat \<Rightarrow> chunk list" where
  "chunks_from cfg T ord s =
     (if overlap cfg < chunk_size cfg \<and> s < length T then
        let c = make_chunk T (chunk_size cfg) ord s
        in if end_offset c = length T then [c]
           else c # chunks_from cfg T (Suc ord) (s + (chunk_size cfg - overlap cfg))
      else [])"
  by pat_completeness auto
termination
  by (relation "measure (\<lambda>(cfg, T, ord, s). length T - s)") auto

declare chunks_from.simps [simp del]

text \<open>
  Modelled from the spec: the chunker's contract of section 4.1 (its code is missing).
  The sequence of chunks of a text, as a list; \<open>None\<close> for a configuration outside the
  contract, about which the specification says nothing.
\<close>

definition chunk_text :: "chunker_config \<Rightarrow> string \<Rightarrow> chunk list option" where
  "chunk_text cfg T =
     (if overlap cfg < chunk_size cfg then Some (chunks_from cfg T 0 0) else None)"

text \<open>
  Modelled from the spec: "concatenating the chunk texts with overlaps removed" of
  section 8 (no code does this; it is the test's reconstruction). \<open>pos\<close> is the end offset
  of the text put together so far, so a chunk contributes its text without the first
  \<open>pos - start\<close> characters, which the chunks before it already gave.
\<close>

fun reassemble_from :: "nat \<Rightarrow> chunk list \<Rightarrow> string" where
  "reassemble_from pos [] = []"
| "reassemble_from pos (c # cs) =
     drop (pos - start_offset c) (raw_text c) @ reassemble_from (end_offset c) cs"

text \<open>
  Modelled from the spec: the reconstruction of section 8, from the start of the text
  (no code does this).
\<close>

definition reassemble :: "chunk list \<Rightarrow> string" where
  "reassemble cs = reassemble_from 0 cs"

subsection \<open>Vector Store\<close>

text \<open>
  Modelled from the spec: an embedding vector, \<open>vector<float, D>\<close> of section 4.2 (the
  store's code is missing), with exact real components.
\<close>

type_synonym vec = "real list"

text \<open>
  Modelled from the spec: the VectorStore entry of section 3 and the record of the
  persisted fallback format of section 6 (the store's code is missing). The chunk
  ordinal, from which the id is derived and by which \<open>query\<close> breaks ties, is kept as a
  field. Vector components are exact reals; the floating-point arithmetic of an
  implementation is not modelled.
\<close>

record entry =
  entry_id :: string
  document_id :: string
  vector :: vec
  chunk_ordinal :: nat
  path :: string
  meta_start :: nat
  meta_end :: nat
  meta_text :: string

text \<open>
  Modelled from the spec: the store of Backend B, section 4.3, "a flat list" of entries
  (the store's code is missing).
\<close>

type_synonym store = "entry list"

text \<open>
  Modelled from the spec: \<open>upsert\<close> of section 4.3, "inserts or replaces entries by id"
  (the store's code is missing). An entry replaces the stored entry of the same id where
  it stands, and is added at the end when the id is new. The specification gives
  \<open>upsert\<close> no failure: a dimension mismatch is "not a per-insert failure".
\<close>

fun upsert1 :: "entry \<Rightarrow> store \<Rightarrow> store" where
  "upsert1 e [] = [e]"
| "upsert1 e (x # xs) = (if entry_id x = entry_id e then e # xs else x # upsert1 e xs)"

text \<open>
  Modelled from the spec: \<open>upsert(entries)\<close> of section 4.3 for a sequence of entries,
  taken one after the other (the store's code is missing).
\<close>

definition upsert :: "entry list \<Rightarrow> store \<Rightarrow> store" where
  "upsert es s = fold upsert1 es s"

text \<open>Modelled from the spec: \<open>count()\<close> of section 4.3 (the store's code is missing).\<close>

definition count :: "store \<Rightarrow> nat" where
  "count s = length s"

text \<open>
  Modelled from the spec: the inner product in the cosine similarity of section 4.3 and
  of the glossary (the store's code is missing). A vector of norm zero, for which the
  cosine's quotient is not defined, scores 0 below.
\<close>

definition dot :: "vec \<Rightarrow> vec \<Rightarrow> real" where
  "dot a b = sum_list (map2 (*) a b)"

text \<open>
  Modelled from the spec: the Euclidean norm in the cosine of section 4.3 (the store's
  code is missing).
\<close>

definition norm_vec :: "vec \<Rightarrow> real" where
  "norm_vec a = sqrt (dot a a)"

text \<open>
  Modelled from the spec: the similarity score of section 4.3, "cosine similarity, range
  [-1, 1]" (the store's code is missing).
\<close>

definition cosine :: "vec \<Rightarrow> vec \<Rightarrow> real" where
  "cosine a b =
     (if norm_vec a = 0 \<or> norm_vec b = 0 then 0 else dot a b / (norm_vec a * norm_vec b))"

text \<open>
  Modelled from the spec: the ranking of \<open>query\<close>, section 4.3 (the store's code is
  missing): descending score, ties by ascending document path, then ascending chunk
  ordinal. The key is compared lexicographically.
\<close>

definition rank_key :: "entry \<times> real \<Rightarrow> real \<times> string \<times> nat" where
  "rank_key r = (- snd r, path (fst r), chunk_ordinal (fst r))"

text \<open>
  Modelled from the spec: \<open>query\<close> of Backend B, section 4.3 (the store's code is
  missing): "a brute-force linear scan computing cosine similarity against every entry,
  sorted and truncated to k".
\<close>

definition query :: "store \<Rightarrow> vec \<Rightarrow> int \<Rightarrow> (entry \<times> real) list" where
  "query s v k = take (nat k) (sort_key rank_key (map (\<lambda>e. (e, cosine v (vector e))) s))"

section \<open>Properties of the frontend\<close>

subsection \<open>App.handleDrop and the indexed flag\<close>

lemma run_app_effects_start:
  "run_app_effects (handleDrop_start p) st = st\<lparr>selectedFolder := Some p, indexed := False\<rparr>"
  by (simp add: run_app_effects_def handleDrop_start_def)

lemma run_app_effects_settle:
  "run_app_effects (handleDrop_settle r) st = (if isl r then st else st\<lparr>indexed := True\<rparr>)"
  by (cases r) (simp_all add: run_app_effects_def handleDrop_settle_def)

lemma run_app_effects_append:
  "run_app_effects (xs @ ys) st = run_app_effects ys (run_app_effects xs st)"
  by (simp add: run_app_effects_def)

text \<open>
  Whatever is dropped and however the pending promises settle, a step keeps this true:
  when \<open>indexed\<close> is set, some \<open>index_folder\<close> promise has resolved.
\<close>

lemma app_step_indexed_inv:
  assumes "indexed (ui s) \<longrightarrow> (\<exists>f. (f, True) \<in> set (settled s))"
  shows "indexed (ui (app_step a s)) \<longrightarrow> (\<exists>f. (f, True) \<in> set (settled (app_step a s)))"
proof (cases a)
  case (Drop item)
  then show ?thesis
    using assms by (cases "onDrop item") (simp_all add: run_app_effects_start)
next
  case (Settle i r)
  then show ?thesis
    using assms by (auto simp: run_app_effects_settle)
qed

lemma run_app_indexed_inv:
  "indexed (ui s) \<longrightarrow> (\<exists>f. (f, True) \<in> set (settled s)) \<Longrightarrow>
   indexed (ui (run_app acts s)) \<longrightarrow> (\<exists>f. (f, True) \<in> set (settled (run_app acts s)))"
proof (induction acts arbitrary: s)
  case Nil
  then show ?case by (simp add: run_app_def)
next
  case (Cons a acts)
  have "run_app (a # acts) s = run_app acts (app_step a s)"
    by (simp add: run_app_def)
  then show ?case
    using Cons.IH [OF app_step_indexed_inv [OF Cons.prems]] by simp
qed

text \<open>
  Claim C8, as amended. In \<open>App.handleDrop\<close> the \<open>indexed\<close> flag is false when
  \<open>index_folder\<close> is invoked, whatever it was before, and nothing before the invocation
  sets it to true; the part after the \<open>await\<close> sets it to true exactly when the promise
  resolved, and a rejection leaves the flag as it was. A call of \<open>handleDrop\<close> that runs
  to the settlement of its promise with no other call in between ends with \<open>indexed\<close>
  true exactly when its own \<open>index_folder\<close> resolved; that is the run of a drop made
  while nothing is pending. Under every interleaving of drops and settlements from the
  initial state, \<open>indexed\<close> is true only if some \<open>index_folder\<close> promise has resolved.
\<close>

theorem handleDrop_indexed_flag:
  "indexed (run_app_effects (takeWhile (\<lambda>x. x \<noteq> InvokeIndexFolder p) (handleDrop_start p)) st) = False
   \<and> InvokeIndexFolder p \<in> set (handleDrop_start p)
   \<and> SetIndexed True \<notin> set (handleDrop_start p)
   \<and> (SetIndexed True \<in> set (handleDrop_settle r) \<longleftrightarrow> \<not> isl r)
   \<and> indexed (run_app_effects (handleDrop_settle (Inl e)) st) = indexed st
   \<and> indexed (fst (handleDrop p r st)) = (\<not> isl r)
   \<and> (pending s = [] \<and> p \<noteq> [] \<longrightarrow>
        ui (run_app [Drop (Some p), Settle 0 r] s) = fst (handleDrop p r (ui s)))
   \<and> (indexed (ui (run_app acts app_sys_init)) \<longrightarrow>
        (\<exists>f. (f, True) \<in> set (settled (run_app acts app_sys_init))))"
proof -
  have before: "indexed (run_app_effects
      (takeWhile (\<lambda>x. x \<noteq> InvokeIndexFolder p) (handleDrop_start p)) st) = False"
    by (simp add: handleDrop_start_def run_app_effects_def)
  have invoked: "InvokeIndexFolder p \<in> set (handleDrop_start p)"
    and not_yet: "SetIndexed True \<notin> set (handleDrop_start p)"
    by (simp_all add: handleDrop_start_def)
  have on_resolve: "SetIndexed True \<in> set (handleDrop_settle r) \<longleftrightarrow> \<not> isl r"
    by (cases r) (simp_all add: handleDrop_settle_def)
  have on_reject: "indexed (run_app_effects (handleDrop_settle (Inl e)) st) = indexed st"
    by (simp add: run_app_effects_settle)
  have alone: "indexed (fst (handleDrop p r st)) = (\<not> isl r)"
    by (simp add: handleDrop_def run_app_effects_append run_app_effects_start
        run_app_effects_settle)
  have idle: "pending s = [] \<and> p \<noteq> [] \<longrightarrow>
      ui (run_app [Drop (Some p), Settle 0 r] s) = fst (handleDrop p r (ui s))"
    by (simp add: run_app_def onDrop_def handleDrop_def run_app_effects_append)
  have always: "indexed (ui (run_app acts app_sys_init)) \<longrightarrow>
      (\<exists>f. (f, True) \<in> set (settled (run_app acts app_sys_init)))"
    by (rule run_app_indexed_inv) (simp add: app_sys_init_def app_init_def)
  from before invoked not_yet on_resolve on_reject alone idle always show ?thesis
    by blast
qed

text \<open>
  The run of one drop made while nothing is pending, whose promise then rejects: the
  flag ends false, and the folder stays selected.
\<close>

theorem handleDrop_indexed_flag_witness:
  "pending app_sys_init = [] \<and> ''/docs'' \<noteq> []
   \<and> ui (run_app [Drop (Some ''/docs''), Settle 0 (Inl ''no such folder'')] app_sys_init) =
       \<lparr>selectedFolder = Some ''/docs'', indexed = False, license = None\<rparr>
   \<and> indexed (fst (handleDrop ''/docs'' (Inr ()) app_init))"
proof -
  have idle: "pending app_sys_init = [] \<and> ''/docs'' \<noteq> []"
    by (simp add: app_sys_init_def)
  from handleDrop_indexed_flag [of "''/docs''" app_init "Inl ''no such folder''" "''x''" app_sys_init "[]"] idle
  have "ui (run_app [Drop (Some ''/docs''), Settle 0 (Inl ''no such folder'')] app_sys_init) =
      fst (handleDrop ''/docs'' (Inl ''no such folder'') (ui app_sys_init))"
    by blast
  moreover have "fst (handleDrop ''/docs'' (Inl ''no such folder'') (ui app_sys_init)) =
      \<lparr>selectedFolder = Some ''/docs'', indexed = False, license = None\<rparr>"
    by (simp add: handleDrop_def handleDrop_start_def handleDrop_settle_def
        run_app_effects_def app_sys_init_def app_init_def)
  moreover from handleDrop_indexed_flag [of "''/docs''" app_init "Inr ()" "''x''" app_sys_init "[]"]
  have "indexed (fst (handleDrop ''/docs'' (Inr ()) app_init))"
    by simp
  ultimately show ?thesis using idle by simp
qed

text \<open>
  The claim as first stated, "if \<open>index_folder\<close> rejects, the flag remains false, so
  \<open>indexed\<close> is true only for a folder whose indexing completed without error", fails
  when two drops overlap. Folder \<open>A\<close> is dropped, then folder \<open>B\<close> while \<open>A\<close> is still being
  indexed; the promise of \<open>A\<close> resolves, and then that of \<open>B\<close> rejects. The flag is true at
  the end, with \<open>B\<close> the selected folder.
\<close>

theorem handleDrop_overlap_counterexample:
  "indexed (ui (run_app
      [Drop (Some ''A''), Drop (Some ''B''), Settle 0 (Inr ()), Settle 0 (Inl ''failed'')]
      app_sys_init))
   \<and> selectedFolder (ui (run_app
      [Drop (Some ''A''), Drop (Some ''B''), Settle 0 (Inr ()), Settle 0 (Inl ''failed'')]
      app_sys_init)) = Some ''B''
   \<and> settled (run_app
      [Drop (Some ''A''), Drop (Some ''B''), Settle 0 (Inr ()), Settle 0 (Inl ''failed'')]
      app_sys_init) = [(''A'', True), (''B'', False)]"
  by (simp add: run_app_def app_sys_init_def app_init_def onDrop_def handleDrop_start_def
      handleDrop_settle_def run_app_effects_def)

subsection \<open>ChatPanel.send\<close>

text \<open>
  Claim C9. In every state of the \<open>ChatPanel\<close> whose input string is empty, \<open>send\<close>
  returns at once: it has no effect at all, so it makes no \<open>chat_query\<close> call, and the
  message list (the whole state) is as before.
\<close>

theorem send_empty_input_no_call:
  assumes "input st = []"
  shows "send now n r n' now' st = (st, [])
     \<and> send_start now n st = []
     \<and> (\<forall>q h. InvokeChatQuery q h \<notin> set (snd (send now n r n' now' st)))
     \<and> messages (fst (send now n r n' now' st)) = messages st"
  using assms by (simp add: send_def send_start_def)

theorem send_empty_input_no_call_witness:
  "input \<lparr>messages = [\<lparr>msg_id = ''7'', role = Assistant, content = ''Hello'', timestamp = None\<rparr>],
          input = []\<rparr> = []
   \<and> send ''t'' 41 (Inr RespNullish) 42 ''u''
        \<lparr>messages = [\<lparr>msg_id = ''7'', role = Assistant, content = ''Hello'', timestamp = None\<rparr>],
         input = []\<rparr>
      = (\<lparr>messages = [\<lparr>msg_id = ''7'', role = Assistant, content = ''Hello'', timestamp = None\<rparr>],
          input = []\<rparr>, [])"
proof -
  let ?st = "\<lparr>messages = [\<lparr>msg_id = ''7'', role = Assistant, content = ''Hello'', timestamp = None\<rparr>],
              input = []\<rparr>"
  have h: "input ?st = []" by simp
  from send_empty_input_no_call [OF h, of "''t''" 41 "Inr RespNullish" 42 "''u''"] h
  show ?thesis by simp
qed

text \<open>
  Claim C10. Whenever \<open>send\<close> invokes \<open>chat_query\<close>, the history it passes is the message
  list of the state it was called in, and the query is that state's input; the new user
  message, which carries the query, is appended to that list by the state update, so
  the list after the update is the history followed by the new message.
\<close>

theorem send_history_is_prior_messages:
  assumes "InvokeChatQuery q h \<in> set (snd (send now n r n' now' st))"
  shows "h = messages st \<and> q = input st
     \<and> messages (run_chat_effects (send_start now n st) st) =
         h @ [\<lparr>msg_id = string_of_nat n, role = User, content = q, timestamp = Some now\<rparr>]"
  using assms
  by (cases r)
    (auto simp: send_def send_start_def send_settle_def run_chat_effects_def Let_def
      split: if_splits)

theorem send_history_is_prior_messages_witness:
  "InvokeChatQuery ''and Rust?''
      [\<lparr>msg_id = ''7'', role = User, content = ''Paris?'', timestamp = None\<rparr>]
     \<in> set (snd (send ''t'' 41 (Inr (RespObject (Some ''A language.''))) 42 ''u''
          \<lparr>messages = [\<lparr>msg_id = ''7'', role = User, content = ''Paris?'', timestamp = None\<rparr>],
           input = ''and Rust?''\<rparr>))
   \<and> messages (run_chat_effects
        (send_start ''t'' 41
          \<lparr>messages = [\<lparr>msg_id = ''7'', role = User, content = ''Paris?'', timestamp = None\<rparr>],
           input = ''and Rust?''\<rparr>)
        \<lparr>messages = [\<lparr>msg_id = ''7'', role = User, content = ''Paris?'', timestamp = None\<rparr>],
         input = ''and Rust?''\<rparr>)
      = [\<lparr>msg_id = ''7'', role = User, content = ''Paris?'', timestamp = None\<rparr>,
         \<lparr>msg_id = string_of_nat 41, role = User, content = ''and Rust?'', timestamp = Some ''t''\<rparr>]"
proof -
  let ?m = "\<lparr>msg_id = ''7'', role = User, content = ''Paris?'', timestamp = None\<rparr>"
  let ?st = "\<lparr>messages = [?m], input = ''and Rust?''\<rparr>"
  have h: "InvokeChatQuery ''and Rust?'' [?m]
      \<in> set (snd (send ''t'' 41 (Inr (RespObject (Some ''A language.''))) 42 ''u'' ?st))"
    by (simp add: send_def send_start_def send_settle_def Let_def)
  from send_history_is_prior_messages [OF h] h show ?thesis by simp
qed

section \<open>Properties of the modelled core\<close>

subsection \<open>Text Chunker\<close>

text \<open>
  Putting the chunks from offset \<open>s\<close> together, when the text up to \<open>pos\<close> is already
  there and \<open>pos\<close> lies inside the first chunk, gives the rest of the text from \<open>pos\<close>.
\<close>

lemma reassemble_from_chunks:
  "overlap cfg < chunk_size cfg \<Longrightarrow> s \<le> pos \<Longrightarrow> pos \<le> length T \<Longrightarrow> pos \<le> s + chunk_size cfg \<Longrightarrow>
   reassemble_from pos (chunks_from cfg T ord s) = drop pos T"
proof (induction cfg T ord s arbitrary: pos rule: chunks_from.induct)
  case (1 cfg T ord s)
  let ?c = "make_chunk T (chunk_size cfg) ord s"
  let ?e = "min (s + chunk_size cfg) (length T)"
  show ?case
  proof (cases "s < length T")
    case False
    with "1.prems" show ?thesis by (simp add: chunks_from.simps)
  next
    case True
    have c: "start_offset ?c = s" "end_offset ?c = ?e" "raw_text ?c = take (?e - s) (drop s T)"
      by (simp_all add: make_chunk_def Let_def)
    have pe: "pos \<le> ?e" using "1.prems" by simp
    have head: "drop (pos - s) (take (?e - s) (drop s T)) = take (?e - pos) (drop pos T)"
      using "1.prems" by (simp add: drop_take)
    show ?thesis
    proof (cases "?e = length T")
      case True
      with \<open>s < length T\<close> "1.prems" c head show ?thesis
        by (simp add: chunks_from.simps [of cfg T ord s] Let_def)
    next
      case False
      then have e: "?e = s + chunk_size cfg" "s + chunk_size cfg < length T" by auto
      have ih: "reassemble_from ?e (chunks_from cfg T (Suc ord) (s + (chunk_size cfg - overlap cfg))) = drop ?e T"
        using "1.prems" \<open>s < length T\<close> False e
        by (intro "1.IH") (auto simp: c)
      have "take (?e - pos) (drop pos T) @ drop ?e T = drop pos T"
        using pe by (metis append_take_drop_id drop_drop le_add_diff_inverse2 add.commute)
      with \<open>s < length T\<close> "1.prems" False c head ih show ?thesis
        by (simp add: chunks_from.simps [of cfg T ord s] Let_def)
    qed
  qed
qed


lemma chunks_from_empty_iff:
  "chunks_from cfg T ord s = [] \<longleftrightarrow> \<not> (overlap cfg < chunk_size cfg \<and> s < length T)"
  by (simp add: chunks_from.simps [of cfg T ord s] Let_def)

lemma chunks_from_last:
  "chunks_from cfg T ord s \<noteq> [] \<Longrightarrow> end_offset (last (chunks_from cfg T ord s)) = length T"
proof (induction cfg T ord s rule: chunks_from.induct)
  case (1 cfg T ord s)
  let ?c = "make_chunk T (chunk_size cfg) ord s"
  let ?s' = "s + (chunk_size cfg - overlap cfg)"
  from "1.prems" have valid: "overlap cfg < chunk_size cfg" "s < length T"
    by (simp_all add: chunks_from_empty_iff)
  show ?case
  proof (cases "end_offset ?c = length T")
    case True
    with valid show ?thesis
      by (simp add: chunks_from.simps [of cfg T ord s] Let_def)
  next
    case False
    then have "s + chunk_size cfg < length T"
      by (auto simp: make_chunk_def Let_def min_def split: if_splits)
    with valid have "?s' < length T" by simp
    with valid have ne: "chunks_from cfg T (Suc ord) ?s' \<noteq> []"
      by (simp add: chunks_from_empty_iff)
    have "end_offset (last (chunks_from cfg T (Suc ord) ?s')) = length T"
      using valid False ne by (intro "1.IH") simp_all
    with valid False ne show ?thesis
      by (simp add: chunks_from.simps [of cfg T ord s] Let_def)
  qed
qed

lemma chunks_from_nth:
  "i < length (chunks_from cfg T ord s) \<Longrightarrow>
   chunks_from cfg T ord s ! i =
     make_chunk T (chunk_size cfg) (ord + i) (s + i * (chunk_size cfg - overlap cfg))
   \<and> s + i * (chunk_size cfg - overlap cfg) < length T
   \<and> (Suc i < length (chunks_from cfg T ord s) \<longrightarrow>
        s + i * (chunk_size cfg - overlap cfg) + chunk_size cfg < length T)"
proof (induction cfg T ord s arbitrary: i rule: chunks_from.induct)
  case (1 cfg T ord s)
  let ?c = "make_chunk T (chunk_size cfg) ord s"
  let ?d = "chunk_size cfg - overlap cfg"
  from "1.prems" have ne: "chunks_from cfg T ord s \<noteq> []" by auto
  then have valid: "overlap cfg < chunk_size cfg" "s < length T"
    by (simp_all add: chunks_from_empty_iff)
  show ?case
  proof (cases "end_offset ?c = length T")
    case True
    with valid have eq: "chunks_from cfg T ord s = [?c]"
      by (simp add: chunks_from.simps [of cfg T ord s] Let_def)
    with "1.prems" have "i = 0" by simp
    with eq valid show ?thesis by simp
  next
    case False
    with valid have eq: "chunks_from cfg T ord s = ?c # chunks_from cfg T (Suc ord) (s + ?d)"
      by (simp add: chunks_from.simps [of cfg T ord s] Let_def)
    from False have full: "s + chunk_size cfg < length T"
      by (auto simp: make_chunk_def Let_def min_def split: if_splits)
    show ?thesis
    proof (cases i)
      case 0
      with eq valid full show ?thesis by simp
    next
      case (Suc j)
      with "1.prems" eq have j: "j < length (chunks_from cfg T (Suc ord) (s + ?d))" by simp
      have "chunks_from cfg T (Suc ord) (s + ?d) ! j =
              make_chunk T (chunk_size cfg) (Suc ord + j) (s + ?d + j * ?d)
            \<and> s + ?d + j * ?d < length T
            \<and> (Suc j < length (chunks_from cfg T (Suc ord) (s + ?d)) \<longrightarrow>
                 s + ?d + j * ?d + chunk_size cfg < length T)"
        using valid False j by (intro "1.IH") simp_all
      with Suc eq show ?thesis by (simp add: add.assoc)
    qed
  qed
qed

text \<open>
  Claim C1. For every text \<open>T\<close> and every configuration with \<open>overlap < chunk_size\<close> the
  chunker yields a sequence of chunks such that: the empty text has no chunk; a
  non-empty text has a first chunk starting at offset 0 and a last chunk ending at
  \<open>length T\<close>; each chunk starts \<open>chunk_size - overlap\<close> after the one before it and not
  after that one's end, so there is no gap, and every chunk but the last has the full
  \<open>chunk_size\<close>; every chunk is numbered by its position, is not empty, ends at its
  start plus \<open>chunk_size\<close> clipped to the end of the text, and carries exactly the text
  between its offsets; and the chunk texts put together with the overlaps removed are
  \<open>T\<close>.
\<close>

theorem chunk_text_covers:
  assumes valid: "overlap cfg < chunk_size cfg"
  shows "\<exists>cs. chunk_text cfg T = Some cs
     \<and> (T = [] \<longrightarrow> cs = [])
     \<and> (T \<noteq> [] \<longrightarrow> cs \<noteq> [] \<and> start_offset (hd cs) = 0 \<and> end_offset (last cs) = length T)
     \<and> (\<forall>i. Suc i < length cs \<longrightarrow>
           start_offset (cs ! Suc i) = start_offset (cs ! i) + (chunk_size cfg - overlap cfg)
         \<and> start_offset (cs ! Suc i) \<le> end_offset (cs ! i)
         \<and> end_offset (cs ! i) = start_offset (cs ! i) + chunk_size cfg)
     \<and> (\<forall>i < length cs.
           ordinal (cs ! i) = i
         \<and> start_offset (cs ! i) < end_offset (cs ! i)
         \<and> end_offset (cs ! i) = min (start_offset (cs ! i) + chunk_size cfg) (length T)
         \<and> raw_text (cs ! i) =
             take (end_offset (cs ! i) - start_offset (cs ! i)) (drop (start_offset (cs ! i)) T))
     \<and> reassemble cs = T"
proof -
  let ?cs = "chunks_from cfg T 0 0"
  let ?d = "chunk_size cfg - overlap cfg"
  have nth: "?cs ! i = make_chunk T (chunk_size cfg) i (i * ?d)"
       "i * ?d < length T"
       "Suc i < length ?cs \<Longrightarrow> i * ?d + chunk_size cfg < length T"
    if "i < length ?cs" for i
    using chunks_from_nth [OF that] by simp_all
  have some: "chunk_text cfg T = Some ?cs"
    using valid by (simp add: chunk_text_def)
  have empty: "T = [] \<longrightarrow> ?cs = []"
    by (simp add: chunks_from_empty_iff)
  have nonempty: "T \<noteq> [] \<longrightarrow> ?cs \<noteq> [] \<and> start_offset (hd ?cs) = 0 \<and> end_offset (last ?cs) = length T"
  proof
    assume "T \<noteq> []"
    with valid have ne: "?cs \<noteq> []" by (simp add: chunks_from_empty_iff)
    then have "0 < length ?cs" by simp
    from nth(1) [OF this] ne have "start_offset (hd ?cs) = 0"
      by (simp add: hd_conv_nth make_chunk_def Let_def)
    with ne chunks_from_last [OF ne] show "?cs \<noteq> [] \<and> start_offset (hd ?cs) = 0 \<and> end_offset (last ?cs) = length T"
      by simp
  qed
  have step: "\<forall>i. Suc i < length ?cs \<longrightarrow>
           start_offset (?cs ! Suc i) = start_offset (?cs ! i) + ?d
         \<and> start_offset (?cs ! Suc i) \<le> end_offset (?cs ! i)
         \<and> end_offset (?cs ! i) = start_offset (?cs ! i) + chunk_size cfg"
  proof (intro allI impI)
    fix i assume i: "Suc i < length ?cs"
    then have i': "i < length ?cs" by simp
    from nth(1) [OF i] nth(1) [OF i'] nth(3) [OF i' i]
    show "start_offset (?cs ! Suc i) = start_offset (?cs ! i) + ?d
         \<and> start_offset (?cs ! Suc i) \<le> end_offset (?cs ! i)
         \<and> end_offset (?cs ! i) = start_offset (?cs ! i) + chunk_size cfg"
      by (simp add: make_chunk_def Let_def)
  qed
  have each: "\<forall>i < length ?cs.
           ordinal (?cs ! i) = i
         \<and> start_offset (?cs ! i) < end_offset (?cs ! i)
         \<and> end_offset (?cs ! i) = min (start_offset (?cs ! i) + chunk_size cfg) (length T)
         \<and> raw_text (?cs ! i) =
             take (end_offset (?cs ! i) - start_offset (?cs ! i)) (drop (start_offset (?cs ! i)) T)"
  proof (intro allI impI)
    fix i assume i: "i < length ?cs"
    from nth(1) [OF i] nth(2) [OF i] valid
    show "ordinal (?cs ! i) = i
         \<and> start_offset (?cs ! i) < end_offset (?cs ! i)
         \<and> end_offset (?cs ! i) = min (start_offset (?cs ! i) + chunk_size cfg) (length T)
         \<and> raw_text (?cs ! i) =
             take (end_offset (?cs ! i) - start_offset (?cs ! i)) (drop (start_offset (?cs ! i)) T)"
      by (simp add: make_chunk_def Let_def)
  qed
  have whole: "reassemble ?cs = T"
    using reassemble_from_chunks [OF valid, of 0 0 T 0] by (simp add: reassemble_def)
  from some empty nonempty step each whole show ?thesis by blast
qed

text \<open>
  The scenario of the specification's section 8: the 59 characters of \<open>notes.md\<close> with
  \<open>chunk_size = 40\<close> and \<open>overlap = 10\<close> give two chunks, \<open>[0, 40)\<close> and \<open>[30, 59)\<close>.
\<close>

theorem chunk_text_covers_witness:
  "overlap \<lparr>chunk_size = 40, overlap = 10\<rparr> < chunk_size \<lparr>chunk_size = 40, overlap = 10\<rparr>
   \<and> chunk_text \<lparr>chunk_size = 40, overlap = 10\<rparr>
        ''Paris is the capital of France. Rust is a systems language.'' =
       Some [\<lparr>ordinal = 0, start_offset = 0, end_offset = 40,
                raw_text = ''Paris is the capital of France. Rust is ''\<rparr>,
             \<lparr>ordinal = 1, start_offset = 30, end_offset = 59,
                raw_text = ''. Rust is a systems language.''\<rparr>]
   \<and> (\<exists>cs. chunk_text \<lparr>chunk_size = 40, overlap = 10\<rparr>
          ''Paris is the capital of France. Rust is a systems language.'' = Some cs
        \<and> cs \<noteq> [] \<and> end_offset (last cs) = 59
        \<and> reassemble cs = ''Paris is the capital of France. Rust is a systems language.'')"
proof -
  let ?cfg = "\<lparr>chunk_size = 40, overlap = 10\<rparr>"
  let ?T = "''Paris is the capital of France. Rust is a systems language.''"
  have valid: "overlap ?cfg < chunk_size ?cfg"
    by simp
  have chunks: "chunk_text ?cfg ?T =
       Some [\<lparr>ordinal = 0, start_offset = 0, end_offset = 40,
                raw_text = ''Paris is the capital of France. Rust is ''\<rparr>,
             \<lparr>ordinal = 1, start_offset = 30, end_offset = 59,
                raw_text = ''. Rust is a systems language.''\<rparr>]"
    by (simp add: chunk_text_def chunks_from.simps make_chunk_def Let_def)
  from chunk_text_covers [OF valid, of ?T]
  have "\<exists>cs. chunk_text ?cfg ?T = Some cs \<and> cs \<noteq> [] \<and> end_offset (last cs) = 59
      \<and> reassemble cs = ?T"
    by auto
  with valid chunks show ?thesis by blast
qed

subsection \<open>Vector Store\<close>

lemma upsert1_idem: "upsert1 e (upsert1 e s) = upsert1 e s"
  by (induction s) auto

text \<open>
  Claim C3. For every store state and every entry \<open>e\<close>, upserting \<open>e\<close> once more after it
  has been upserted changes nothing: the store is the same, so \<open>count()\<close> and the result
  of every \<open>query\<close> are the same.
\<close>

theorem upsert_same_entry_idempotent:
  "upsert [e] (upsert [e] s) = upsert [e] s
   \<and> count (upsert [e] (upsert [e] s)) = count (upsert [e] s)
   \<and> query (upsert [e] (upsert [e] s)) v k = query (upsert [e] s) v k"
  by (simp add: upsert_def upsert1_idem)

text \<open>
  A store that holds chunk 0 of \<open>/a.md\<close> and chunk 0 of \<open>/b.md\<close>, and the entry of the
  former upserted again with a new vector, twice: two entries, the first replaced, and
  the best match of the query vector \<open>[0, 1]\<close> is the replaced entry, with score 1.
\<close>

theorem upsert_same_entry_idempotent_witness:
  "count (upsert
      [\<lparr>entry_id = ''a#0'', document_id = ''a'', vector = [0, 1], chunk_ordinal = 0,
         path = ''/a.md'', meta_start = 0, meta_end = 2, meta_text = ''hi''\<rparr>]
      (upsert
        [\<lparr>entry_id = ''a#0'', document_id = ''a'', vector = [0, 1], chunk_ordinal = 0,
           path = ''/a.md'', meta_start = 0, meta_end = 2, meta_text = ''hi''\<rparr>]
        [\<lparr>entry_id = ''a#0'', document_id = ''a'', vector = [1, 0], chunk_ordinal = 0,
           path = ''/a.md'', meta_start = 0, meta_end = 2, meta_text = ''ho''\<rparr>,
         \<lparr>entry_id = ''b#0'', document_id = ''b'', vector = [1, 0], chunk_ordinal = 0,
           path = ''/b.md'', meta_start = 0, meta_end = 1, meta_text = ''x''\<rparr>])) = 2
   \<and> map (\<lambda>r. (entry_id (fst r), snd r)) (query (upsert
      [\<lparr>entry_id = ''a#0'', document_id = ''a'', vector = [0, 1], chunk_ordinal = 0,
         path = ''/a.md'', meta_start = 0, meta_end = 2, meta_text = ''hi''\<rparr>]
      (upsert
        [\<lparr>entry_id = ''a#0'', document_id = ''a'', vector = [0, 1], chunk_ordinal = 0,
           path = ''/a.md'', meta_start = 0, meta_end = 2, meta_text = ''hi''\<rparr>]
        [\<lparr>entry_id = ''a#0'', document_id = ''a'', vector = [1, 0], chunk_ordinal = 0,
           path = ''/a.md'', meta_start = 0, meta_end = 2, meta_text = ''ho''\<rparr>,
         \<lparr>entry_id = ''b#0'', document_id = ''b'', vector = [1, 0], chunk_ordinal = 0,
           path = ''/b.md'', meta_start = 0, meta_end = 1, meta_text = ''x''\<rparr>])) [0, 1] 1)
      = [(''a#0'', 1)]"
proof -
  let ?e = "\<lparr>entry_id = ''a#0'', document_id = ''a'', vector = [0, 1], chunk_ordinal = 0,
         path = ''/a.md'', meta_start = 0, meta_end = 2, meta_text = ''hi''\<rparr>"
  let ?s = "[\<lparr>entry_id = ''a#0'', document_id = ''a'', vector = [1, 0], chunk_ordinal = 0,
           path = ''/a.md'', meta_start = 0, meta_end = 2, meta_text = ''ho''\<rparr>,
         \<lparr>entry_id = ''b#0'', document_id = ''b'', vector = [1, 0], chunk_ordinal = 0,
           path = ''/b.md'', meta_start = 0, meta_end = 1, meta_text = ''x''\<rparr>]"
  have once: "count (upsert [?e] ?s) = 2"
    by (simp add: upsert_def count_def)
  have best: "map (\<lambda>r. (entry_id (fst r), snd r)) (query (upsert [?e] ?s) [0, 1] 1) = [(''a#0'', 1)]"
    by (simp add: upsert_def query_def cosine_def norm_vec_def dot_def rank_key_def)
  from upsert_same_entry_idempotent [of ?e ?s "[0, 1]" 1] once best show ?thesis
    by simp
qed

end
